theory Spec2Isabelle
  imports Complex_Main "HOL-Library.Sublist"
begin

section \<open>Data model\<close>

text \<open>
  An article travels through the pipeline as a Python dictionary. Each key is a field
  of the record below and \<open>None\<close> stands for an absent key. The Fetcher
  (\<open>get_data_revised.py\<close>, \<open>process_data_for_summarization\<close>) builds dictionaries
  with the string-valued keys \<open>url\<close>, \<open>raw_content\<close> and \<open>summary\<close>; rows read
  from the store carry \<open>url\<close>, \<open>summary\<close>, \<open>query\<close>, \<open>tags\<close> and
  \<open>retrieval_timestamp\<close>. A NULL \<open>summary\<close>, \<open>query\<close> or \<open>tags\<close> of a stored row
  reads as Python's \<open>None\<close>, which the truth tests of the code treat like an absent key,
  so it is \<open>None\<close> here too; \<open>url\<close> is a string wherever it is present.
\<close>

record article =
  url :: "string option"
  summary :: "string option"
  query :: "string option"
  tags :: "string list option"
  raw_content :: "string option"
  retrieval_timestamp :: "nat option"

text \<open>
  Modelled from the spec: the table declaration
  \<open>articles(url PRIMARY KEY, summary, query, tags ARRAY<string>, retrieval_timestamp)\<close>
  is not part of the repository's sources. A primary key is never NULL, the other
  columns may be, and \<open>retrieval_timestamp\<close> is filled with the transaction's clock
  reading when an INSERT does not supply it ("set/updated on every insert-or-update").
\<close>

record row =
  row_url :: string
  row_summary :: "string option"
  row_query :: "string option"
  row_tags :: "string list option"
  row_timestamp :: nat

type_synonym data_tuple = "string option \<times> string option \<times> string option \<times> string list option"

text \<open>\<open>dict(row)\<close> of a \<open>RealDictCursor\<close> row of the SELECT in \<open>query_database_by_tags\<close>.\<close>

definition dict_of_row :: "row \<Rightarrow> article" where
  "dict_of_row r =
     \<lparr>url = Some (row_url r), summary = row_summary r, query = row_query r,
      tags = row_tags r, raw_content = None, retrieval_timestamp = Some (row_timestamp r)\<rparr>"

text \<open>The tuple \<open>(url, summary, query_text, tags)\<close> the write paths build with \<open>.get\<close>.\<close>

definition data_tuple_of :: "article \<Rightarrow> data_tuple" where
  "data_tuple_of a = (url a, summary a, query a, tags a)"

datatype py_error = KeyError | InterfaceError

text \<open>Python truthiness of an optional string and of an optional list.\<close>

definition truthy :: "'a list option \<Rightarrow> bool" where
  "truthy v = (case v of None \<Rightarrow> False | Some xs \<Rightarrow> xs \<noteq> [])"

section \<open>Tag extraction (\<open>utilities.py\<close>, \<open>extract_tags\<close>)\<close>

text \<open>
  KeyBERT is an external model: \<open>kw_model.extract_keywords\<close> is a parameter that returns
  keyword and score pairs. Scores are floating-point numbers, each of them a rational;
  the threshold is the double nearest to \<open>0.2\<close>.
\<close>

definition threshold :: rat where
  "threshold = 3602879701896397 / 18014398509481984"

definition extract_tags :: "(string \<Rightarrow> nat \<Rightarrow> (string \<times> rat) list) \<Rightarrow> string \<Rightarrow> nat \<Rightarrow> string list" where
  "extract_tags extract_keywords q top_n =
     map fst (filter (\<lambda>(kw, score). score > threshold) (extract_keywords q top_n))"

section \<open>Evidence store (\<open>utilities.py\<close>, \<open>db_append.py\<close>)\<close>

subsection \<open>Statements\<close>

text \<open>
  \<open>execute_values\<close> sends the argument list in pages of at most \<open>page_size\<close> tuples, one
  INSERT statement per page. A statement either returns the new table or raises
  (\<open>None\<close>).
\<close>

definition page_size :: nat where
  "page_size = 100"

function paginate :: "'a list \<Rightarrow> 'a list list" where
  "paginate xs = (if xs = [] then [] else take page_size xs # paginate (drop page_size xs))"
  by pat_completeness auto
termination
  by (relation "measure length") (auto simp: page_size_def)

fun run_pages :: "('a list \<Rightarrow> row list \<Rightarrow> row list option) \<Rightarrow> 'a list list \<Rightarrow> row list \<Rightarrow> row list option" where
  "run_pages stmt [] tbl = Some tbl"
| "run_pages stmt (p # ps) tbl =
     (case stmt p tbl of None \<Rightarrow> None | Some tbl' \<Rightarrow> run_pages stmt ps tbl')"

definition execute_values :: "('a list \<Rightarrow> row list \<Rightarrow> row list option) \<Rightarrow> 'a list \<Rightarrow> row list \<Rightarrow> row list option" where
  "execute_values stmt argslist tbl = run_pages stmt (paginate argslist) tbl"

definition new_row :: "nat \<Rightarrow> string \<Rightarrow> string option \<Rightarrow> string option \<Rightarrow> string list option \<Rightarrow> row" where
  "new_row now u s q t =
     \<lparr>row_url = u, row_summary = s, row_query = q, row_tags = t, row_timestamp = now\<rparr>"

text \<open>
  \<open>INSERT INTO articles (url, summary, query, tags) VALUES ... ON CONFLICT (url) DO NOTHING\<close>:
  a tuple whose url is already in the table (stored before, or inserted earlier by the
  same statement) is skipped; a NULL url violates the primary key and the statement raises.
\<close>

fun insert_do_nothing :: "nat \<Rightarrow> data_tuple list \<Rightarrow> row list \<Rightarrow> row list option" where
  "insert_do_nothing now [] tbl = Some tbl"
| "insert_do_nothing now ((None, s, q, t) # vs) tbl = None"
| "insert_do_nothing now ((Some u, s, q, t) # vs) tbl =
     insert_do_nothing now vs
       (if u \<in> set (map row_url tbl) then tbl else tbl @ [new_row now u s q t])"

text \<open>
  \<open>... ON CONFLICT (url) DO UPDATE SET summary = EXCLUDED.summary, query = EXCLUDED.query,
  tags = EXCLUDED.tags, retrieval_timestamp = NOW()\<close>: the stored row takes the incoming
  values and the clock reading of the transaction. PostgreSQL raises when one statement
  proposes the same url twice; \<open>seen\<close> holds the urls the statement has written so far.
\<close>

definition update_row :: "nat \<Rightarrow> string \<Rightarrow> string option \<Rightarrow> string option \<Rightarrow> string list option \<Rightarrow> row \<Rightarrow> row" where
  "update_row now u s q t r =
     (if row_url r = u
      then r\<lparr>row_summary := s, row_query := q, row_tags := t, row_timestamp := now\<rparr>
      else r)"

fun insert_do_update_seen :: "nat \<Rightarrow> string list \<Rightarrow> data_tuple list \<Rightarrow> row list \<Rightarrow> row list option" where
  "insert_do_update_seen now seen [] tbl = Some tbl"
| "insert_do_update_seen now seen ((None, s, q, t) # vs) tbl = None"
| "insert_do_update_seen now seen ((Some u, s, q, t) # vs) tbl =
     (if u \<in> set seen then None
      else insert_do_update_seen now (u # seen) vs
             (if u \<in> set (map row_url tbl) then map (update_row now u s q t) tbl
              else tbl @ [new_row now u s q t]))"

definition insert_do_update :: "nat \<Rightarrow> data_tuple list \<Rightarrow> row list \<Rightarrow> row list option" where
  "insert_do_update now vs tbl = insert_do_update_seen now [] vs tbl"

subsection \<open>\<open>query_database_by_tags\<close>\<close>

text \<open>The SQL operator \<open>tags && query_tags\<close>: the arrays have an element in common.\<close>

definition overlaps :: "string list option \<Rightarrow> string list \<Rightarrow> bool" where
  "overlaps article_tags query_tags =
     (case article_tags of None \<Rightarrow> False | Some ts \<Rightarrow> set ts \<inter> set query_tags \<noteq> {})"

text \<open>\<open>set(row.get("tags", [])).intersection(query_tags)\<close>, as a duplicate-free list.\<close>

definition common_tags :: "string list \<Rightarrow> string list \<Rightarrow> string list" where
  "common_tags article_tags query_tags =
     remdups (filter (\<lambda>t. t \<in> set query_tags) article_tags)"

text \<open>
  The loop over the fetched rows. A row whose \<open>tags\<close> value is NULL makes \<open>set(None)\<close>
  raise; the \<open>except\<close> clause catches it and the results gathered so far are returned.
\<close>

fun filter_rows :: "row list \<Rightarrow> string list \<Rightarrow> int \<Rightarrow> article list \<Rightarrow> article list" where
  "filter_rows [] query_tags min_matches results = results"
| "filter_rows (r # rows) query_tags min_matches results =
     (case row_tags r of
        None \<Rightarrow> results
      | Some ts \<Rightarrow>
          filter_rows rows query_tags min_matches
            (if int (length (common_tags ts query_tags)) \<ge> min_matches
             then results @ [dict_of_row r] else results))"

text \<open>
  \<open>fault\<close> says that \<open>connect\<close>, \<open>execute\<close> or \<open>fetchall\<close> raised: the \<open>except\<close> clause
  prints the error and the function returns the empty \<open>results\<close>.
\<close>

definition query_database_by_tags :: "bool \<Rightarrow> row list \<Rightarrow> string list \<Rightarrow> int \<Rightarrow> article list" where
  "query_database_by_tags fault tbl query_tags min_matches =
     (if fault then []
      else filter_rows (filter (\<lambda>r. overlaps (row_tags r) query_tags) tbl)
             query_tags min_matches [])"

subsection \<open>\<open>append_articles\<close> and \<open>store_articles\<close>\<close>

text \<open>
  Both write paths open a connection, run one \<open>execute_values\<close> and commit; any exception
  is caught, the transaction is rolled back and the table is as before. \<open>fault\<close> says
  that \<open>connect\<close>, the statement or \<open>commit\<close> raised for a reason outside the batch.
  The two functions below give the table a call leaves behind; whether the call returns
  or raises is \<open>append_articles_raises\<close>.
\<close>

definition append_articles :: "bool \<Rightarrow> nat \<Rightarrow> article list \<Rightarrow> row list \<Rightarrow> row list" where
  "append_articles fault now articles tbl =
     (if fault then tbl
      else case execute_values (insert_do_nothing now) (map data_tuple_of articles) tbl of
             None \<Rightarrow> tbl
           | Some tbl' \<Rightarrow> tbl')"

text \<open>
  The \<open>except\<close> clause of \<open>append_articles\<close> prints the error and calls
  \<open>conn.rollback()\<close>, outside any \<open>try\<close> block. \<open>rollback_raises\<close> says that the
  connection was opened and is lost when the handler runs, so that \<open>rollback\<close> raises
  \<open>InterfaceError\<close>: the \<open>finally\<close> clause closes the connection and the exception
  leaves \<open>append_articles\<close>. The handler runs when the statement raised, for a fault or
  for a NULL url in the batch.
\<close>

definition append_articles_raises :: "bool \<Rightarrow> bool \<Rightarrow> nat \<Rightarrow> article list \<Rightarrow> row list \<Rightarrow> bool" where
  "append_articles_raises fault rollback_raises now articles tbl =
     ((fault \<or> execute_values (insert_do_nothing now) (map data_tuple_of articles) tbl = None)
      \<and> rollback_raises)"

definition store_articles :: "bool \<Rightarrow> nat \<Rightarrow> article list \<Rightarrow> row list \<Rightarrow> row list" where
  "store_articles fault now articles tbl =
     (if fault then tbl
      else case execute_values (insert_do_update now) (map data_tuple_of articles) tbl of
             None \<Rightarrow> tbl
           | Some tbl' \<Rightarrow> tbl')"

section \<open>Report orchestrator (\<open>Core_Workflow/report_generator.py\<close>)\<close>

subsection \<open>Collaborators and observable state\<close>

text \<open>
  The behaviour of the external collaborators during one run: the keyword model behind
  \<open>extract_tags\<close>, the store connection on the read and on the write path, the Fetcher
  \<open>get_data_and_summarize\<close> (\<open>None\<close> when it raises) and the chat completion behind the
  Narrative Generator (\<open>None\<close> when the client raises or returns no text). A failing
  collaborator is an exception raised inside the \<open>try\<close> block that guards its use.
\<close>

record env =
  extract_keywords :: "string \<Rightarrow> nat \<Rightarrow> (string \<times> rat) list"
  db_read_fault :: bool
  db_write_fault :: bool
  get_data_and_summarize :: "string \<Rightarrow> nat \<Rightarrow> article list option"
  chat_completion :: "string \<Rightarrow> string option"
  clock :: nat

datatype event =
    FetcherCall string nat
  | AppendCall "article list"
  | NarratorCall string

text \<open>The stored table and the log of calls made to the collaborators.\<close>

record world =
  table :: "row list"
  calls :: "event list"

definition MIN_ARTICLE_THRESHOLD :: nat where
  "MIN_ARTICLE_THRESHOLD = 7"

definition newline :: char where
  "newline = CHR 0x0A"

definition dquote :: char where
  "dquote = CHR 0x22"

subsection \<open>\<open>supplement_data\<close>\<close>

definition supplement_data :: "env \<Rightarrow> string \<Rightarrow> nat \<Rightarrow> world \<Rightarrow> article list \<times> world" where
  "supplement_data e q num_results w =
     (let w' = w\<lparr>calls := calls w @ [FetcherCall q num_results]\<rparr>
      in case get_data_and_summarize e q num_results of
           Some results \<Rightarrow> (results, w')
         | None \<Rightarrow> ([], w'))"

subsection \<open>\<open>collate_article_summaries\<close>\<close>

text \<open>\<open>str(n)\<close> of a natural number.\<close>

function str_nat :: "nat \<Rightarrow> string" where
  "str_nat n =
     (if n < 10 then [''0123456789'' ! n]
      else str_nat (n div 10) @ [''0123456789'' ! (n mod 10)])"
  by pat_completeness auto
termination
  by (relation "measure id") auto

text \<open>
  The loop \<open>for i, article in enumerate(articles)\<close> with
  \<open>summary = article.get("summary", "")\<close> and \<open>url = article.get("url", "Unknown URL")\<close>;
  \<open>i\<close> counts every article, also those whose summary is empty.
\<close>

definition article_block :: "nat \<Rightarrow> string \<Rightarrow> string \<Rightarrow> string" where
  "article_block i url_text summary_text =
     ''Article '' @ str_nat (i + 1) @ '' (URL: '' @ url_text @ ''):''
       @ [newline] @ summary_text @ [newline, newline]"

definition summary_or_empty :: "article \<Rightarrow> string" where
  "summary_or_empty a = (case summary a of None \<Rightarrow> [] | Some s \<Rightarrow> s)"

definition url_or_unknown :: "article \<Rightarrow> string" where
  "url_or_unknown a = (case url a of None \<Rightarrow> ''Unknown URL'' | Some u \<Rightarrow> u)"

fun collate_loop :: "nat \<Rightarrow> article list \<Rightarrow> string \<Rightarrow> string" where
  "collate_loop i [] collated = collated"
| "collate_loop i (a # rest) collated =
     collate_loop (i + 1) rest
       (if summary_or_empty a \<noteq> []
        then collated @ article_block i (url_or_unknown a) (summary_or_empty a)
        else collated)"

definition collate_article_summaries :: "article list \<Rightarrow> string" where
  "collate_article_summaries articles = collate_loop 0 articles []"

subsection \<open>\<open>generate_analysis_report\<close>\<close>

definition prompt_head :: string where
  "prompt_head =
     [newline] @
     ''    You are an expert data analyst. Based on the following information extracted from various reputable sources:'' @ [newline] @
     ''    ''"

definition prompt_middle :: string where
  "prompt_middle =
     [newline] @
     [newline] @
     ''    Generate a comprehensive and deeply researched report addressing the query: '' @ [dquote]"

definition prompt_tail :: string where
  "prompt_tail =
     [dquote] @ ''. Your report should:'' @ [newline] @
     ''    1. **Executive Summary:** Present a concise overview of the key findings.'' @ [newline] @
     ''    2. **Detailed Analysis:** Provide an in-depth analysis that synthesizes the information, identifies underlying trends, and explains the significance of the data.'' @ [newline] @
     ''    3. **Supplementary Insights:** Offer additional insights such as comparisons with historical data, contextual factors influencing the trends, and potential implications for future decisions.'' @ [newline] @
     ''    4. **Conclusion:** Summarize the overall insights and propose actionable recommendations or considerations.'' @ [newline] @
     [newline] @
     ''    Ensure that the report is clear, logically organized, and written in a tone appropriate for strategic decision-making rather than journalistic reporting.'' @ [newline] @
     ''    Ensure that the report includes all sections as described and do not shorten the output to only a final summary.'' @ [newline] @
     ''    ''"

text \<open>
  \<open>str.strip()\<close> removes white space from both ends. A character of the answer stands
  for a code point below 256; of these, \<open>str.isspace\<close> holds for the ten of the ASCII
  range and for U+0085 and U+00A0.
\<close>

definition is_space :: "char \<Rightarrow> bool" where
  "is_space c =
     (c \<in> set [CHR 0x09, CHR 0x0A, CHR 0x0B, CHR 0x0C, CHR 0x0D,
                CHR 0x1C, CHR 0x1D, CHR 0x1E, CHR 0x1F, CHR 0x20, CHR 0x85, CHR 0xA0])"

definition strip :: "string \<Rightarrow> string" where
  "strip s = rev (dropWhile is_space (rev (dropWhile is_space s)))"

text \<open>
  \<open>base_prompt\<close> with the context and the query filled in, and
  \<open>prompt = base_prompt + "\n" + extra_instructions if extra_instructions else base_prompt\<close>.
\<close>

definition build_prompt :: "string \<Rightarrow> string \<Rightarrow> string \<Rightarrow> string" where
  "build_prompt context q extra_instructions =
     (if extra_instructions \<noteq> []
      then (prompt_head @ context @ prompt_middle @ q @ prompt_tail) @ [newline] @ extra_instructions
      else prompt_head @ context @ prompt_middle @ q @ prompt_tail)"

text \<open>
  The prompt is built outside the \<open>try\<close> block; creating the client, the completion
  request and reading the answer are inside it, and every exception there yields the
  fixed sentinel.
\<close>

definition generate_analysis_report :: "env \<Rightarrow> string \<Rightarrow> string \<Rightarrow> string \<Rightarrow> world \<Rightarrow> string \<times> world" where
  "generate_analysis_report e context q extra_instructions w =
     (let prompt = build_prompt context q extra_instructions;
          w' = w\<lparr>calls := calls w @ [NarratorCall prompt]\<rparr>
      in case chat_completion e prompt of
           Some content \<Rightarrow> (strip content, w')
         | None \<Rightarrow> (''Error generating report.'', w'))"

subsection \<open>\<open>generate_report_for_query\<close>\<close>

text \<open>\<open>s.startswith(p)\<close>.\<close>

fun startswith :: "string \<Rightarrow> string \<Rightarrow> bool" where
  "startswith s [] = True"
| "startswith [] (p # ps) = False"
| "startswith (c # cs) (p # ps) = (c = p \<and> startswith cs ps)"

text \<open>
  \<open>set(article["url"] for article in articles_from_db)\<close>: subscripting a dictionary
  without the key raises \<open>KeyError\<close>.
\<close>

fun existing_urls :: "article list \<Rightarrow> py_error + string list" where
  "existing_urls [] = Inr []"
| "existing_urls (a # rest) =
     (case url a of
        None \<Rightarrow> Inl KeyError
      | Some u \<Rightarrow> (case existing_urls rest of Inl err \<Rightarrow> Inl err | Inr us \<Rightarrow> Inr (u # us)))"

text \<open>
  The comprehension that keeps a candidate when
  \<open>article.get("url", "").startswith("http") and article["url"] not in existing_urls\<close>.
\<close>

definition keep_candidate :: "string list \<Rightarrow> article \<Rightarrow> bool" where
  "keep_candidate known a =
     (startswith (case url a of None \<Rightarrow> [] | Some u \<Rightarrow> u) ''http''
      \<and> (case url a of None \<Rightarrow> False | Some u \<Rightarrow> u \<notin> set known))"

text \<open>The loop that assigns \<open>article["query"]\<close> and \<open>article["tags"]\<close> where they are falsy.\<close>

definition ensure_query :: "string \<Rightarrow> article \<Rightarrow> article" where
  "ensure_query q a = (if \<not> truthy (query a) then a\<lparr>query := Some q\<rparr> else a)"

definition ensure_tags :: "string list \<Rightarrow> article \<Rightarrow> article" where
  "ensure_tags tgs a = (if \<not> truthy (tags a) then a\<lparr>tags := Some tgs\<rparr> else a)"

fun ensure_query_and_tags :: "string \<Rightarrow> string list \<Rightarrow> article list \<Rightarrow> article list" where
  "ensure_query_and_tags q tgs [] = []"
| "ensure_query_and_tags q tgs (a # rest) =
     ensure_tags tgs (ensure_query q a) # ensure_query_and_tags q tgs rest"

text \<open>
  Steps 1 to 3 of \<open>generate_report_for_query\<close> (lines 92 to 126): the value of the local
  variable \<open>articles\<close>, with the state they leave behind. \<open>extract_tags\<close> is called with
  its default \<open>top_n = 5\<close>, \<open>query_database_by_tags\<close> with its default
  \<open>min_matches = 4\<close>. \<open>gather_articles\<close> and \<open>generate_report_for_query\<close> follow the
  runs in which the call of \<open>append_articles\<close> returns; \<open>generate_report_for_query_full\<close>
  below adds the run in which it raises.
\<close>

definition gather_articles :: "env \<Rightarrow> string \<Rightarrow> world \<Rightarrow> (py_error + article list) \<times> world" where
  "gather_articles e q w =
     (let tgs = extract_tags (extract_keywords e) q 5;
          articles_from_db = query_database_by_tags (db_read_fault e) (table w) tgs 4
      in if length articles_from_db < MIN_ARTICLE_THRESHOLD then
           (let (fetched, w1) = supplement_data e q 5 w
            in case existing_urls articles_from_db of
                 Inl err \<Rightarrow> (Inl err, w1)
               | Inr known \<Rightarrow>
                   (let supplementary_articles =
                          ensure_query_and_tags q tgs (filter (keep_candidate known) fetched);
                        w2 = (if supplementary_articles \<noteq> []
                              then w1\<lparr>table := append_articles (db_write_fault e) (clock e)
                                                  supplementary_articles (table w1),
                                      calls := calls w1 @ [AppendCall supplementary_articles]\<rparr>
                              else w1)
                    in (Inr (articles_from_db @ supplementary_articles), w2)))
         else (Inr articles_from_db, w))"

definition generate_report_for_query :: "env \<Rightarrow> string \<Rightarrow> string \<Rightarrow> world \<Rightarrow> (py_error + string) \<times> world" where
  "generate_report_for_query e q extra_instructions w =
     (case gather_articles e q w of
        (Inl err, w') \<Rightarrow> (Inl err, w')
      | (Inr articles, w') \<Rightarrow>
          if articles = [] then (Inr ''No relevant articles found to generate a report.'', w')
          else (let context = collate_article_summaries articles;
                    (report, w'') = generate_analysis_report e context q extra_instructions w'
                in (Inr report, w'')))"

text \<open>
  Steps 4 and 5 (lines 128 to 136), on the collected articles.
\<close>

definition report_on_articles :: "env \<Rightarrow> string \<Rightarrow> string \<Rightarrow> article list \<Rightarrow> world \<Rightarrow> (py_error + string) \<times> world" where
  "report_on_articles e q extra_instructions articles w =
     (if articles = [] then (Inr ''No relevant articles found to generate a report.'', w)
      else (let context = collate_article_summaries articles;
                (report, w') = generate_analysis_report e context q extra_instructions w
            in (Inr report, w')))"

text \<open>
  The whole of \<open>generate_report_for_query\<close>, with the exception that can leave
  \<open>append_articles\<close>: the call at line 122 is not inside a \<open>try\<close> block, so the
  exception ends the run there, after the table and the call log have taken the effect of
  the call.
\<close>

definition generate_report_for_query_full :: "env \<Rightarrow> bool \<Rightarrow> string \<Rightarrow> string \<Rightarrow> world \<Rightarrow> (py_error + string) \<times> world" where
  "generate_report_for_query_full e rollback_raises q extra_instructions w =
     (let tgs = extract_tags (extract_keywords e) q 5;
          articles_from_db = query_database_by_tags (db_read_fault e) (table w) tgs 4
      in if length articles_from_db < MIN_ARTICLE_THRESHOLD then
           (let (fetched, w1) = supplement_data e q 5 w
            in case existing_urls articles_from_db of
                 Inl err \<Rightarrow> (Inl err, w1)
               | Inr known \<Rightarrow>
                   (let supplementary_articles =
                          ensure_query_and_tags q tgs (filter (keep_candidate known) fetched)
                    in if supplementary_articles \<noteq> [] then
                         (let w2 = w1\<lparr>table := append_articles (db_write_fault e) (clock e)
                                                  supplementary_articles (table w1),
                                      calls := calls w1 @ [AppendCall supplementary_articles]\<rparr>
                          in if append_articles_raises (db_write_fault e) rollback_raises (clock e)
                                  supplementary_articles (table w1)
                             then (Inl InterfaceError, w2)
                             else report_on_articles e q extra_instructions
                                    (articles_from_db @ supplementary_articles) w2)
                       else report_on_articles e q extra_instructions
                              (articles_from_db @ supplementary_articles) w1))
         else report_on_articles e q extra_instructions articles_from_db w)"

section \<open>Observations used in the statements\<close>

text \<open>The stored row of a url, if any.\<close>

definition lookup_row :: "string \<Rightarrow> row list \<Rightarrow> row option" where
  "lookup_row u tbl = find (\<lambda>r. row_url r = u) tbl"

text \<open>The number of distinct tags a stored row shares with the query tags.\<close>

definition shared_tag_count :: "row \<Rightarrow> string list \<Rightarrow> nat" where
  "shared_tag_count r query_tags =
     (case row_tags r of None \<Rightarrow> 0 | Some ts \<Rightarrow> card (set ts \<inter> set query_tags))"

text \<open>A row that an INSERT at clock reading \<open>now\<close> makes from a tuple.\<close>

definition made_from :: "nat \<Rightarrow> row \<Rightarrow> data_tuple \<Rightarrow> bool" where
  "made_from now r v =
     (case v of (Some u, s, q, t) \<Rightarrow> r = new_row now u s q t | (None, s, q, t) \<Rightarrow> False)"

text \<open>
  The cached articles of a run (the value of \<open>articles_from_db\<close>) and the candidates
  that \<open>supplement_data\<close> hands back.
\<close>

definition articles_from_db :: "env \<Rightarrow> string \<Rightarrow> world \<Rightarrow> article list" where
  "articles_from_db e q w =
     query_database_by_tags (db_read_fault e) (table w) (extract_tags (extract_keywords e) q 5) 4"

definition fetched_candidates :: "env \<Rightarrow> string \<Rightarrow> article list" where
  "fetched_candidates e q =
     (case get_data_and_summarize e q 5 of None \<Rightarrow> [] | Some results \<Rightarrow> results)"

fun is_fetcher_call :: "event \<Rightarrow> bool" where
  "is_fetcher_call (FetcherCall q n) = True"
| "is_fetcher_call _ = False"

fun is_narrator_call :: "event \<Rightarrow> bool" where
  "is_narrator_call (NarratorCall p) = True"
| "is_narrator_call _ = False"

definition fetcher_calls :: "world \<Rightarrow> nat" where
  "fetcher_calls w = length (filter is_fetcher_call (calls w))"

definition narrator_calls :: "world \<Rightarrow> nat" where
  "narrator_calls w = length (filter is_narrator_call (calls w))"

section \<open>Example data\<close>

definition example_keywords :: "string \<Rightarrow> nat \<Rightarrow> (string \<times> rat) list" where
  "example_keywords q top_n =
     take top_n [(''tariff'', 3 / 5), (''trump'', 1 / 2), (''china'', 2 / 5), (''rules'', 3 / 10),
                 (''new'', 1 / 10)]"

definition example_row :: "nat \<Rightarrow> row" where
  "example_row n =
     new_row 0 (''https://example.com/article'' @ str_nat n) (Some ''Summary.'')
       (Some ''New Tariff rules'') (Some [''tariff'', ''trump'', ''china'', ''rules''])"

definition example_candidate :: "string \<Rightarrow> article" where
  "example_candidate u =
     \<lparr>url = Some u, summary = Some ''Fresh summary.'', query = None, tags = None,
      raw_content = Some ''Raw text.'', retrieval_timestamp = None\<rparr>"

definition example_env :: "article list option \<Rightarrow> string option \<Rightarrow> env" where
  "example_env fetched answer =
     \<lparr>extract_keywords = example_keywords, db_read_fault = False, db_write_fault = False,
      get_data_and_summarize = (\<lambda>q n. fetched), chat_completion = (\<lambda>p. answer), clock = 1\<rparr>"

definition stocked_world :: world where
  "stocked_world = \<lparr>table = map example_row [1..<8], calls = []\<rparr>"

definition sparse_world :: world where
  "sparse_world = \<lparr>table = map example_row [1..<3], calls = []\<rparr>"

definition empty_world :: world where
  "empty_world = \<lparr>table = [], calls = []\<rparr>"

definition cached_article :: "string \<Rightarrow> article" where
  "cached_article u =
     \<lparr>url = Some u, summary = Some ''Summary.'', query = Some ''New Tariff rules'',
      tags = Some [''tariff'', ''trump'', ''china'', ''rules''], raw_content = None,
      retrieval_timestamp = Some 0\<rparr>"

definition untagged_row :: row where
  "untagged_row = new_row 0 ''https://example.com/untagged'' (Some ''Summary.'') None None"

definition partial_row :: row where
  "partial_row = new_row 0 ''https://example.com/partial'' (Some ''Summary.'') None (Some [''tariff'', ''steel''])"

definition revised_article :: article where
  "revised_article =
     \<lparr>url = Some ''https://example.com/article1'', summary = Some ''Revised summary.'',
      query = Some ''tariffs'', tags = Some [''tariff'', ''steel''],
      raw_content = None, retrieval_timestamp = None\<rparr>"

definition mixed_fetch :: "article list" where
  "mixed_fetch =
     [example_candidate ''https://example.com/article1'',
      example_candidate ''ftp://example.org/file'',
      example_candidate ''https://example.org/new'']"

definition twin :: article where
  "twin = example_candidate ''https://example.org/new''"

definition tagged_twin :: article where
  "tagged_twin = twin\<lparr>query := Some ''tariff'', tags := Some [''tariff'', ''trump'', ''china'', ''rules'']\<rparr>"

definition stopword_keywords :: "string \<Rightarrow> nat \<Rightarrow> (string \<times> rat) list" where
  "stopword_keywords q top_n = take top_n [(''thing'', 1 / 10)]"

definition stopword_env :: env where
  "stopword_env =
     \<lparr>extract_keywords = stopword_keywords, db_read_fault = False, db_write_fault = False,
      get_data_and_summarize = (\<lambda>q n. Some [twin]), chat_completion = (\<lambda>p. Some ''Report.''),
      clock = 1\<rparr>"

definition failing_write_env :: env where
  "failing_write_env =
     \<lparr>extract_keywords = example_keywords, db_read_fault = False, db_write_fault = True,
      get_data_and_summarize = (\<lambda>q n. Some [twin]), chat_completion = (\<lambda>p. Some ''Report.''),
      clock = 1\<rparr>"

definition late_row :: row where
  "late_row =
     new_row 10 ''https://example.com/article1'' (Some ''Summary.'') (Some ''New Tariff rules'')
       (Some [''tariff'', ''trump'', ''china'', ''rules''])"

section \<open>Auxiliary facts\<close>

declare paginate.simps [simp del]
declare str_nat.simps [simp del]

subsection \<open>Pages and statements\<close>

lemma paginate_Nil: "paginate [] = []"
  by (simp add: paginate.simps)

lemma paginate_single: "paginate [x] = [[x]]"
  by (simp add: paginate.simps [of "[x]"] paginate_Nil page_size_def)

lemma execute_values_single: "execute_values stmt [x] tbl = stmt [x] tbl"
  by (simp add: execute_values_def paginate_single split: option.splits)

lemma concat_paginate: "concat (paginate xs) = xs"
proof (induction xs rule: paginate.induct)
  case (1 xs)
  show ?case
  proof (cases "xs = []")
    case True
    then show ?thesis by (simp add: paginate.simps)
  next
    case False
    then have "concat (paginate xs) = take page_size xs @ concat (paginate (drop page_size xs))"
      by (subst paginate.simps) simp
    also have "\<dots> = take page_size xs @ drop page_size xs"
      using 1 False by simp
    finally show ?thesis by simp
  qed
qed

lemma insert_do_nothing_rows:
  "insert_do_nothing now vs tbl = Some tbl' \<Longrightarrow> r \<in> set tbl' \<Longrightarrow>
   r \<in> set tbl \<or> (\<exists>v \<in> set vs. made_from now r v)"
proof (induction now vs tbl rule: insert_do_nothing.induct)
  case (1 now tbl)
  then show ?case by simp
next
  case (2 now s q t vs tbl)
  then show ?case by simp
next
  case (3 now u s q t vs tbl)
  let ?tbl1 = "if u \<in> set (map row_url tbl) then tbl else tbl @ [new_row now u s q t]"
  from "3.prems" have "insert_do_nothing now vs ?tbl1 = Some tbl'" by simp
  from "3.IH" [OF this "3.prems"(2)]
  consider "r \<in> set ?tbl1" | "\<exists>v \<in> set vs. made_from now r v"
    by blast
  then show ?case
  proof cases
    case 1
    then have "r \<in> set tbl \<or> made_from now r (Some u, s, q, t)"
      by (auto simp: made_from_def split: if_splits)
    then show ?thesis by auto
  next
    case 2
    then show ?thesis by auto
  qed
qed

lemma run_pages_do_nothing_rows:
  "run_pages (insert_do_nothing now) ps tbl = Some tbl' \<Longrightarrow> r \<in> set tbl' \<Longrightarrow>
   r \<in> set tbl \<or> (\<exists>v \<in> set (concat ps). made_from now r v)"
proof (induction ps arbitrary: tbl)
  case Nil
  then show ?case by simp
next
  case (Cons p ps)
  from Cons.prems(1) obtain tbl1 where p: "insert_do_nothing now p tbl = Some tbl1"
    and rest: "run_pages (insert_do_nothing now) ps tbl1 = Some tbl'"
    by (auto split: option.splits)
  from Cons.IH [OF rest Cons.prems(2)] insert_do_nothing_rows [OF p, of r]
  show ?case by auto
qed

lemma append_articles_rows:
  assumes "r \<in> set (append_articles fault now arts tbl)"
  shows "r \<in> set tbl \<or>
         (\<exists>a u. a \<in> set arts \<and> url a = Some u \<and> r = new_row now u (summary a) (query a) (tags a))"
proof (cases "fault \<or> execute_values (insert_do_nothing now) (map data_tuple_of arts) tbl = None")
  case True
  then have "append_articles fault now arts tbl = tbl"
    by (cases fault) (simp_all add: append_articles_def)
  then show ?thesis using assms by simp
next
  case False
  then obtain tbl' where run: "run_pages (insert_do_nothing now) (paginate (map data_tuple_of arts)) tbl = Some tbl'"
    and res: "append_articles fault now arts tbl = tbl'"
    by (auto simp: append_articles_def execute_values_def)
  from run_pages_do_nothing_rows [OF run, of r] assms res
  consider "r \<in> set tbl" | a where "a \<in> set arts" "made_from now r (data_tuple_of a)"
    unfolding concat_paginate by auto
  then show ?thesis
  proof cases
    case 1
    then show ?thesis by simp
  next
    case 2
    then show ?thesis by (auto simp: made_from_def data_tuple_of_def split: option.splits)
  qed
qed

lemma append_articles_single:
  "append_articles False now [a] tbl =
     (case url a of None \<Rightarrow> tbl
      | Some u \<Rightarrow> if u \<in> set (map row_url tbl) then tbl
                  else tbl @ [new_row now u (summary a) (query a) (tags a)])"
  by (simp add: append_articles_def execute_values_single data_tuple_of_def split: option.splits)

lemma append_articles_known_url:
  "url b = Some u \<Longrightarrow> u \<in> set (map row_url tbl) \<Longrightarrow> append_articles fault now [b] tbl = tbl"
  by (cases fault) (simp_all add: append_articles_single, simp add: append_articles_def)

lemma lookup_row_present: "u \<in> set (map row_url tbl) \<Longrightarrow> lookup_row u tbl \<noteq> None"
  by (auto simp: lookup_row_def find_None_iff)

subsection \<open>Insert-or-update\<close>

lemma update_row_hit: "row_url r = u \<Longrightarrow> update_row now u s q t r = new_row now u s q t"
  by (simp add: update_row_def new_row_def)

lemma update_row_miss: "row_url r \<noteq> u \<Longrightarrow> update_row now u s q t r = r"
  by (simp add: update_row_def)

lemma row_url_update_row [simp]: "row_url (update_row now u s q t r) = row_url r"
  by (simp add: update_row_def)

lemma find_update_hit:
  "u \<in> set (map row_url tbl) \<Longrightarrow>
   find (\<lambda>r. row_url r = u) (map (update_row now u s q t) tbl) = Some (new_row now u s q t)"
  by (induction tbl) (auto simp: update_row_hit update_row_miss)

lemma find_update_other:
  "u' \<noteq> u \<Longrightarrow>
   find (\<lambda>r. row_url r = u) (map (update_row now u' s q t) tbl) = find (\<lambda>r. row_url r = u) tbl"
  by (induction tbl) (auto simp: update_row_def)

lemma find_append_new:
  "u \<notin> set (map row_url tbl) \<Longrightarrow>
   find (\<lambda>r. row_url r = u) (tbl @ [new_row now u s q t]) = Some (new_row now u s q t)"
  by (induction tbl) (auto simp: new_row_def)

lemma find_append_other:
  "u' \<noteq> u \<Longrightarrow>
   find (\<lambda>r. row_url r = u) (tbl @ [new_row now u' s q t]) = find (\<lambda>r. row_url r = u) tbl"
  by (induction tbl) (auto simp: new_row_def)

lemma upsert_step_lookup_same:
  "lookup_row u (if u \<in> set (map row_url tbl) then map (update_row now u s q t) tbl
                 else tbl @ [new_row now u s q t]) = Some (new_row now u s q t)"
  unfolding lookup_row_def using find_update_hit find_append_new by (cases "u \<in> set (map row_url tbl)") simp_all

lemma upsert_step_lookup_other:
  "u' \<noteq> u \<Longrightarrow>
   lookup_row u (if u' \<in> set (map row_url tbl) then map (update_row now u' s q t) tbl
                 else tbl @ [new_row now u' s q t]) = lookup_row u tbl"
  by (simp add: lookup_row_def find_update_other find_append_other)

lemma insert_do_update_seen_other:
  "insert_do_update_seen now seen vs tbl = Some tbl' \<Longrightarrow> Some u \<notin> set (map fst vs) \<Longrightarrow>
   lookup_row u tbl' = lookup_row u tbl"
proof (induction now seen vs tbl rule: insert_do_update_seen.induct)
  case (1 now seen tbl)
  then show ?case by simp
next
  case (2 now seen s q t vs tbl)
  then show ?case by simp
next
  case (3 now seen u' s q t vs tbl)
  from "3.prems" have ne: "u' \<noteq> u" and fresh: "u' \<notin> set seen" 
    by (auto split: if_splits)
  from "3.prems" fresh have
    "lookup_row u tbl' = lookup_row u (if u' \<in> set (map row_url tbl) then map (update_row now u' s q t) tbl
                 else tbl @ [new_row now u' s q t])"
    using "3.IH" by simp
  then show ?case by (simp only: upsert_step_lookup_other [OF ne])
qed

lemma insert_do_update_seen_written:
  "insert_do_update_seen now seen vs tbl = Some tbl' \<Longrightarrow> u \<in> set seen \<Longrightarrow>
   Some u \<notin> set (map fst vs)"
proof (induction now seen vs tbl rule: insert_do_update_seen.induct)
  case (3 now seen u' s q t vs tbl)
  then show ?case by (auto split: if_splits)
qed simp_all

lemma insert_do_update_seen_lookup:
  "insert_do_update_seen now seen vs tbl = Some tbl' \<Longrightarrow> (Some u, s, q, t) \<in> set vs \<Longrightarrow>
   lookup_row u tbl' = Some (new_row now u s q t)"
proof (induction now seen vs tbl rule: insert_do_update_seen.induct)
  case (1 now seen tbl)
  then show ?case by simp
next
  case (2 now seen s q t vs tbl)
  then show ?case by simp
next
  case (3 now seen u' s' q' t' vs tbl)
  let ?tbl1 = "if u' \<in> set (map row_url tbl) then map (update_row now u' s' q' t') tbl
                 else tbl @ [new_row now u' s' q' t']"
  from "3.prems" have fresh: "u' \<notin> set seen"
    and rest: "insert_do_update_seen now (u' # seen) vs ?tbl1 = Some tbl'"
    by (auto split: if_splits)
  show ?case
  proof (cases "(Some u, s, q, t) \<in> set vs")
    case True
    then show ?thesis using "3.IH" fresh rest by simp
  next
    case False
    with "3.prems" have here: "u' = u" "s' = s" "q' = q" "t' = t" by auto
    have "Some u \<notin> set (map fst vs)"
      using insert_do_update_seen_written [OF rest, of u] here by simp
    then have "lookup_row u tbl' = lookup_row u ?tbl1"
      using insert_do_update_seen_other [OF rest] by simp
    then show ?thesis
      unfolding here by (simp only: upsert_step_lookup_same)
  qed
qed

lemma run_pages_update_other:
  "run_pages (insert_do_update now) ps tbl = Some tbl' \<Longrightarrow> Some u \<notin> set (map fst (concat ps)) \<Longrightarrow>
   lookup_row u tbl' = lookup_row u tbl"
proof (induction ps arbitrary: tbl)
  case Nil
  then show ?case by simp
next
  case (Cons p ps)
  from Cons.prems(1) obtain tbl1 where p0: "insert_do_update now p tbl = Some tbl1"
    and rest: "run_pages (insert_do_update now) ps tbl1 = Some tbl'"
    by (auto split: option.splits)
  from p0 have p: "insert_do_update_seen now [] p tbl = Some tbl1"
    by (simp only: insert_do_update_def)
  have "lookup_row u tbl1 = lookup_row u tbl"
    using insert_do_update_seen_other [OF p] Cons.prems(2) by simp
  moreover have "lookup_row u tbl' = lookup_row u tbl1"
    using Cons.IH [OF rest] Cons.prems(2) by simp
  ultimately show ?case by simp
qed

lemma run_pages_update_lookup:
  "run_pages (insert_do_update now) ps tbl = Some tbl' \<Longrightarrow> (Some u, s, q, t) \<in> set (concat ps) \<Longrightarrow>
   distinct (map fst (concat ps)) \<Longrightarrow> lookup_row u tbl' = Some (new_row now u s q t)"
proof (induction ps arbitrary: tbl)
  case Nil
  then show ?case by simp
next
  case (Cons p ps)
  from Cons.prems(1) obtain tbl1 where p0: "insert_do_update now p tbl = Some tbl1"
    and rest: "run_pages (insert_do_update now) ps tbl1 = Some tbl'"
    by (auto split: option.splits)
  from p0 have p: "insert_do_update_seen now [] p tbl = Some tbl1"
    by (simp only: insert_do_update_def)
  from Cons.prems(3) have dist: "distinct (map fst (concat ps))"
    and disj: "set (map fst p) \<inter> set (map fst (concat ps)) = {}"
    by simp_all
  show ?case
  proof (cases "(Some u, s, q, t) \<in> set p")
    case True
    then have "Some u \<in> set (map fst p)" by force
    with disj have "Some u \<notin> set (map fst (concat ps))" by blast
    then have "lookup_row u tbl' = lookup_row u tbl1"
      by (rule run_pages_update_other [OF rest])
    also have "\<dots> = Some (new_row now u s q t)"
      by (rule insert_do_update_seen_lookup [OF p True])
    finally show ?thesis .
  next
    case False
    with Cons.prems(2) have "(Some u, s, q, t) \<in> set (concat ps)" by simp
    then show ?thesis by (rule Cons.IH [OF rest _ dist])
  qed
qed

lemma insert_do_update_seen_succeeds:
  "None \<notin> set (map fst vs) \<Longrightarrow> distinct (map fst vs) \<Longrightarrow> Some ` set seen \<inter> set (map fst vs) = {} \<Longrightarrow>
   \<exists>tbl'. insert_do_update_seen now seen vs tbl = Some tbl'"
proof (induction now seen vs tbl rule: insert_do_update_seen.induct)
  case (1 now seen tbl)
  then show ?case by simp
next
  case (2 now seen s q t vs tbl)
  then show ?case by simp
next
  case (3 now seen u s q t vs tbl)
  from "3.prems" have fresh: "u \<notin> set seen" by auto
  from "3.prems" have "Some ` set (u # seen) \<inter> set (map fst vs) = {}" by auto
  with "3.prems" fresh "3.IH" show ?case by simp
qed

lemma run_pages_update_succeeds:
  "None \<notin> set (map fst (concat ps)) \<Longrightarrow> distinct (map fst (concat ps)) \<Longrightarrow>
   \<exists>tbl'. run_pages (insert_do_update now) ps tbl = Some tbl'"
proof (induction ps arbitrary: tbl)
  case Nil
  then show ?case by simp
next
  case (Cons p ps)
  from Cons.prems have "None \<notin> set (map fst p)" "distinct (map fst p)" by simp_all
  then obtain tbl1 where p: "insert_do_update_seen now [] p tbl = Some tbl1"
    using insert_do_update_seen_succeeds [of p "[]" now tbl] by auto
  from Cons.prems have "None \<notin> set (map fst (concat ps))" "distinct (map fst (concat ps))" by simp_all
  then obtain tbl' where "run_pages (insert_do_update now) ps tbl1 = Some tbl'"
    using Cons.IH by blast
  moreover from p have "insert_do_update now p tbl = Some tbl1"
    by (simp only: insert_do_update_def)
  ultimately show ?case by simp
qed

subsection \<open>Tag queries\<close>

lemma length_common_tags: "length (common_tags ts qs) = card (set ts \<inter> set qs)"
proof -
  have "set (filter (\<lambda>t. t \<in> set qs) ts) = set ts \<inter> set qs" by auto
  then show ?thesis
    by (simp add: common_tags_def length_remdups_card_conv)
qed

lemma filter_rows_tagged:
  "\<forall>r \<in> set rows. row_tags r \<noteq> None \<Longrightarrow>
   filter_rows rows qs k acc =
     acc @ map dict_of_row (filter (\<lambda>r. k \<le> int (shared_tag_count r qs)) rows)"
proof (induction rows arbitrary: acc)
  case Nil
  then show ?case by simp
next
  case (Cons r rows)
  then obtain ts where ts: "row_tags r = Some ts" by auto
  from Cons have IH: "\<And>acc. filter_rows rows qs k acc =
     acc @ map dict_of_row (filter (\<lambda>r. k \<le> int (shared_tag_count r qs)) rows)" by simp
  show ?case
    by (simp add: ts IH shared_tag_count_def length_common_tags)
qed

lemma overlaps_iff: "overlaps (row_tags r) qs \<longleftrightarrow> 1 \<le> shared_tag_count r qs"
  by (cases "row_tags r") (auto simp: overlaps_def shared_tag_count_def Suc_le_eq card_gt_0_iff)

subsection \<open>The orchestrator\<close>

lemma startswith_prefix: "startswith s p \<longleftrightarrow> prefix p s"
  by (induction s p rule: startswith.induct) auto

lemma filter_rows_urls:
  "\<forall>a \<in> set acc. url a \<noteq> None \<Longrightarrow> \<forall>a \<in> set (filter_rows rows qs k acc). url a \<noteq> None"
proof (induction rows arbitrary: acc)
  case Nil
  then show ?case by simp
next
  case (Cons r rows)
  show ?case
  proof (cases "row_tags r")
    case None
    then show ?thesis using Cons.prems by simp
  next
    case (Some ts)
    have "\<forall>a \<in> set (acc @ [dict_of_row r]). url a \<noteq> None"
      using Cons.prems by (simp add: dict_of_row_def)
    then have grown: "\<forall>a \<in> set (filter_rows rows qs k (acc @ [dict_of_row r])). url a \<noteq> None"
      by (rule Cons.IH)
    have same: "\<forall>a \<in> set (filter_rows rows qs k acc). url a \<noteq> None"
      using Cons.prems by (rule Cons.IH)
    show ?thesis
    proof (cases "k \<le> int (length (common_tags ts qs))")
      case True
      then show ?thesis using Some grown by simp
    next
      case False
      then show ?thesis using Some same by simp
    qed
  qed
qed

lemma articles_from_db_urls: "\<forall>a \<in> set (articles_from_db e q w). url a \<noteq> None"
  using filter_rows_urls [of "[]"] by (simp add: articles_from_db_def query_database_by_tags_def)

lemma existing_urls_present:
  "\<forall>a \<in> set xs. url a \<noteq> None \<Longrightarrow> existing_urls xs = Inr (List.map_filter url xs)"
  by (induction xs) (auto simp: List.map_filter_simps)

lemma set_map_filter_url: "u \<in> set (List.map_filter url xs) \<longleftrightarrow> Some u \<in> url ` set xs"
  by (induction xs) (auto simp: List.map_filter_simps split: option.splits)

lemma ensure_query_and_tags_map:
  "ensure_query_and_tags q tgs xs = map (\<lambda>a. ensure_tags tgs (ensure_query q a)) xs"
  by (induction xs) simp_all

lemma supplement_data_eq:
  "supplement_data e q n w = (fetched_candidates e q', w\<lparr>calls := calls w @ [FetcherCall q n]\<rparr>)" if "q' = q" "n = 5"
  using that by (simp add: supplement_data_def fetched_candidates_def Let_def split: option.splits)

lemma gather_sufficient:
  "MIN_ARTICLE_THRESHOLD \<le> length (articles_from_db e q w) \<Longrightarrow>
   gather_articles e q w = (Inr (articles_from_db e q w), w)"
  by (simp add: gather_articles_def articles_from_db_def Let_def)

lemma gather_supplementing:
  assumes "length (articles_from_db e q w) < MIN_ARTICLE_THRESHOLD"
  shows "gather_articles e q w =
     (let known = List.map_filter url (articles_from_db e q w);
          supplementary_articles = ensure_query_and_tags q (extract_tags (extract_keywords e) q 5)
              (filter (keep_candidate known) (fetched_candidates e q));
          w1 = w\<lparr>calls := calls w @ [FetcherCall q 5]\<rparr>
      in (Inr (articles_from_db e q w @ supplementary_articles),
          if supplementary_articles \<noteq> []
          then w1\<lparr>table := append_articles (db_write_fault e) (clock e) supplementary_articles (table w1),
                  calls := calls w1 @ [AppendCall supplementary_articles]\<rparr>
          else w1))"
proof -
  have known: "existing_urls (articles_from_db e q w) = Inr (List.map_filter url (articles_from_db e q w))"
    by (rule existing_urls_present [OF articles_from_db_urls])
  show ?thesis
    using assms known
    by (simp add: gather_articles_def articles_from_db_def [symmetric] Let_def supplement_data_eq)
qed

lemma gather_total:
  "\<exists>arts w'. gather_articles e q w = (Inr arts, w')"
proof (cases "length (articles_from_db e q w) < MIN_ARTICLE_THRESHOLD")
  case True
  show ?thesis
    unfolding gather_supplementing [OF True] Let_def by blast
next
  case False
  then show ?thesis using gather_sufficient [of e q w] by simp
qed

lemma narrate_world:
  "snd (generate_analysis_report e c q x w) = w\<lparr>calls := calls w @ [NarratorCall (build_prompt c q x)]\<rparr>"
  by (simp add: generate_analysis_report_def Let_def split: option.splits)

lemma report_after_gather:
  assumes "gather_articles e q w = (Inr arts, w')"
  shows "generate_report_for_query e q x w =
     (if arts = [] then (Inr ''No relevant articles found to generate a report.'', w')
      else (Inr (fst (generate_analysis_report e (collate_article_summaries arts) q x w')),
            snd (generate_analysis_report e (collate_article_summaries arts) q x w')))"
  using assms by (simp add: generate_report_for_query_def Let_def split_beta)

lemma fetcher_calls_narrate:
  "fetcher_calls (snd (generate_analysis_report e c q x w)) = fetcher_calls w"
  by (simp add: narrate_world fetcher_calls_def)

lemma narrator_calls_narrate:
  "narrator_calls (snd (generate_analysis_report e c q x w)) = narrator_calls w + 1"
  by (simp add: narrate_world narrator_calls_def)

lemma fetcher_calls_report:
  "fetcher_calls (snd (generate_report_for_query e q x w)) = fetcher_calls (snd (gather_articles e q w))"
proof -
  obtain arts w' where g: "gather_articles e q w = (Inr arts, w')"
    using gather_total by blast
  show ?thesis
    by (simp add: report_after_gather [OF g] g fetcher_calls_narrate)
qed

lemma fetcher_calls_supplementing:
  assumes "length (articles_from_db e q w) < MIN_ARTICLE_THRESHOLD"
  shows "fetcher_calls (snd (gather_articles e q w)) = fetcher_calls w + 1"
  unfolding gather_supplementing [OF assms] Let_def
  by (simp add: fetcher_calls_def)

lemma narrator_calls_gather:
  "narrator_calls (snd (gather_articles e q w)) = narrator_calls w"
proof (cases "length (articles_from_db e q w) < MIN_ARTICLE_THRESHOLD")
  case True
  show ?thesis
    unfolding gather_supplementing [OF True] Let_def by (simp add: narrator_calls_def)
next
  case False
  then show ?thesis using gather_sufficient [of e q w] by simp
qed

lemma report_on_articles_eq:
  "gather_articles e q w = (Inr arts, w') \<Longrightarrow>
   generate_report_for_query e q x w = report_on_articles e q x arts w'"
  by (simp add: generate_report_for_query_def report_on_articles_def)

lemma full_supplementing:
  assumes "length (articles_from_db e q w) < MIN_ARTICLE_THRESHOLD"
  shows "generate_report_for_query_full e rr q x w =
     (let known = List.map_filter url (articles_from_db e q w);
          supplementary_articles = ensure_query_and_tags q (extract_tags (extract_keywords e) q 5)
              (filter (keep_candidate known) (fetched_candidates e q));
          w1 = w\<lparr>calls := calls w @ [FetcherCall q 5]\<rparr>
      in if supplementary_articles \<noteq> [] \<and>
            append_articles_raises (db_write_fault e) rr (clock e) supplementary_articles (table w)
         then (Inl InterfaceError,
               w1\<lparr>table := append_articles (db_write_fault e) (clock e) supplementary_articles (table w1),
                  calls := calls w1 @ [AppendCall supplementary_articles]\<rparr>)
         else generate_report_for_query e q x w)"
proof -
  have known: "existing_urls (articles_from_db e q w) = Inr (List.map_filter url (articles_from_db e q w))"
    by (rule existing_urls_present [OF articles_from_db_urls])
  obtain arts w' where g: "gather_articles e q w = (Inr arts, w')"
    using gather_total by blast
  note g' = g [unfolded gather_supplementing [OF assms] Let_def]
  show ?thesis
    using assms known g'
    unfolding report_on_articles_eq [OF g]
    by (auto simp: generate_report_for_query_full_def articles_from_db_def [symmetric] Let_def
          supplement_data_eq split: if_splits)
qed

lemma full_sufficient:
  assumes "MIN_ARTICLE_THRESHOLD \<le> length (articles_from_db e q w)"
  shows "generate_report_for_query_full e rr q x w = generate_report_for_query e q x w"
  using assms report_on_articles_eq [OF gather_sufficient [OF assms]]
  by (simp add: generate_report_for_query_full_def articles_from_db_def [symmetric] Let_def)

lemma full_when_rollback_completes:
  "generate_report_for_query_full e False q x w = generate_report_for_query e q x w"
proof (cases "length (articles_from_db e q w) < MIN_ARTICLE_THRESHOLD")
  case True
  show ?thesis
    unfolding full_supplementing [OF True] Let_def
    by (simp add: append_articles_raises_def)
next
  case False
  then show ?thesis by (simp add: full_sufficient)
qed

lemma report_returns_string:
  "\<exists>report. fst (generate_report_for_query e q x w) = Inr report"
proof -
  obtain arts w' where g: "gather_articles e q w = (Inr arts, w')"
    using gather_total by blast
  show ?thesis
    by (simp add: report_after_gather [OF g])
qed

lemma narration_failure_sentinel:
  assumes "fst (gather_articles e q w) = Inr arts" and "arts \<noteq> []"
    and "chat_completion e (build_prompt (collate_article_summaries arts) q x) = None"
  shows "fst (generate_report_for_query e q x w) = Inr ''Error generating report.''"
proof -
  obtain w' where g: "gather_articles e q w = (Inr arts, w')"
    using assms(1) by (cases "gather_articles e q w") simp
  show ?thesis
    using assms(2,3)
    by (simp add: report_after_gather [OF g] generate_analysis_report_def Let_def)
qed

lemma full_raises_only_from_rollback:
  assumes "fst (generate_report_for_query_full e rr q x w) = Inl err"
  shows "rr \<and> err = InterfaceError"
proof (cases "length (articles_from_db e q w) < MIN_ARTICLE_THRESHOLD")
  case True
  obtain report where r: "fst (generate_report_for_query e q x w) = Inr report"
    using report_returns_string by blast
  from assms r show ?thesis
    unfolding full_supplementing [OF True] Let_def
    by (auto simp: append_articles_raises_def split: if_splits)
next
  case False
  obtain report where r: "fst (generate_report_for_query e q x w) = Inr report"
    using report_returns_string by blast
  from assms r False show ?thesis
    by (simp add: full_sufficient)
qed

lemma full_returns_string_when_rollback_completes:
  "\<exists>report. fst (generate_report_for_query_full e False q x w) = Inr report"
  by (simp only: full_when_rollback_completes report_returns_string)

lemma keep_candidate_iff:
  "keep_candidate (List.map_filter url cached) a \<longleftrightarrow>
     (\<exists>u. url a = Some u \<and> prefix ''http'' u \<and> Some u \<notin> url ` set cached)"
  by (cases "url a") (simp_all add: keep_candidate_def startswith_prefix set_map_filter_url)

lemma ensure_fields_eq:
  "ensure_tags tgs (ensure_query q a) =
     a\<lparr>query := (if truthy (query a) then query a else Some q),
       tags := (if truthy (tags a) then tags a else Some tgs)\<rparr>"
  by (simp add: ensure_tags_def ensure_query_def)

lemma ensure_tags_truthy: "tgs \<noteq> [] \<Longrightarrow> truthy (tags (ensure_tags tgs a))"
  by (simp add: ensure_tags_def truthy_def)

lemma ensure_query_and_tags_truthy:
  "tgs \<noteq> [] \<Longrightarrow> a \<in> set (ensure_query_and_tags q tgs xs) \<Longrightarrow> truthy (tags a)"
  by (auto simp: ensure_query_and_tags_map ensure_tags_truthy)

lemma collate_loop_eq:
  "collate_loop i articles acc =
     acc @ concat (map (\<lambda>(n, a). if summary_or_empty a = [] then []
                                  else article_block (n - 1) (url_or_unknown a) (summary_or_empty a))
                     (enumerate (Suc i) articles))"
  by (induction articles arbitrary: i acc) simp_all

lemma article_block_pos:
  "0 < n \<Longrightarrow> article_block (n - 1) u s =
     ''Article '' @ str_nat n @ '' (URL: '' @ u @ ''):'' @ [newline] @ s @ [newline, newline]"
  unfolding article_block_def by simp

lemma enumerate_pos: "(n, a) \<in> set (enumerate (Suc i) xs) \<Longrightarrow> 0 < n"
  by (auto simp: in_set_enumerate_eq)

subsection \<open>The example data\<close>

lemma tags_example: "extract_tags example_keywords q 5 = [''tariff'', ''trump'', ''china'', ''rules'']"
  by (simp add: extract_tags_def example_keywords_def threshold_def)

lemma sparse_cached:
  "articles_from_db (example_env fetched answer) ''tariff'' sparse_world
     = [cached_article ''https://example.com/article1'', cached_article ''https://example.com/article2'']"
  by code_simp

lemma sparse_few:
  "length (articles_from_db (example_env fetched answer) ''tariff'' sparse_world) < MIN_ARTICLE_THRESHOLD"
  by (simp add: sparse_cached MIN_ARTICLE_THRESHOLD_def)

section \<open>The claims\<close>

text \<open>
  Claim C1. When the store lookup returns at least \<open>MIN_ARTICLE_THRESHOLD\<close> cached
  articles, the merged set is the cached articles unchanged, the run up to the merge
  leaves the world as it was, and the whole run makes no call to the Fetcher. When the
  lookup returns fewer, the whole run calls the Fetcher exactly once.
\<close>

theorem threshold_decides_fetch:
  "(MIN_ARTICLE_THRESHOLD \<le> length (articles_from_db e q w) \<longrightarrow>
      gather_articles e q w = (Inr (articles_from_db e q w), w)
      \<and> fetcher_calls (snd (generate_report_for_query e q x w)) = fetcher_calls w)
   \<and> (length (articles_from_db e q w) < MIN_ARTICLE_THRESHOLD \<longrightarrow>
      fetcher_calls (snd (generate_report_for_query e q x w)) = fetcher_calls w + 1)"
  by (simp add: fetcher_calls_report fetcher_calls_supplementing gather_sufficient)

theorem threshold_decides_fetch_witness:
  "MIN_ARTICLE_THRESHOLD \<le> length (articles_from_db (example_env None None) ''tariff'' stocked_world)
   \<and> fetcher_calls (snd (generate_report_for_query (example_env None None) ''tariff'' [] stocked_world)) = 0
   \<and> length (articles_from_db (example_env None None) ''tariff'' sparse_world) < MIN_ARTICLE_THRESHOLD
   \<and> fetcher_calls (snd (generate_report_for_query (example_env None None) ''tariff'' [] sparse_world)) = 1"
proof -
  have full: "MIN_ARTICLE_THRESHOLD \<le> length (articles_from_db (example_env None None) ''tariff'' stocked_world)"
    by code_simp
  have few: "length (articles_from_db (example_env None None) ''tariff'' sparse_world) < MIN_ARTICLE_THRESHOLD"
    by code_simp
  have none: "fetcher_calls stocked_world = 0" "fetcher_calls sparse_world = 0"
    by (simp_all add: fetcher_calls_def stocked_world_def sparse_world_def)
  show ?thesis
    using threshold_decides_fetch [of "example_env None None" "''tariff''" stocked_world "[]"]
      threshold_decides_fetch [of "example_env None None" "''tariff''" sparse_world "[]"]
      full few none
    by simp
qed

text \<open>
  Claim C2, amended. For every table, every query tag list and every \<open>min_matches\<close>
  of at least one, a lookup that can read the store returns exactly the stored rows that
  share at least \<open>min_matches\<close> distinct tags with the query, in table order: the
  coarse overlap filter followed by the exact count loses no such row and admits no
  other. A lookup that cannot read the store returns the empty list. The bound is
  needed: with \<open>min_matches = 0\<close> a row without a common tag meets the count and is
  still dropped by the overlap filter.
\<close>

theorem tag_query_exact:
  assumes "1 \<le> k"
  shows "query_database_by_tags fault tbl qs k =
     (if fault then []
      else map dict_of_row (filter (\<lambda>r. k \<le> int (shared_tag_count r qs)) tbl))"
proof -
  let ?coarse = "filter (\<lambda>r. overlaps (row_tags r) qs) tbl"
  have tagged: "\<forall>r \<in> set ?coarse. row_tags r \<noteq> None"
    by (auto simp: overlaps_def split: option.splits)
  have "filter (\<lambda>r. k \<le> int (shared_tag_count r qs)) ?coarse
      = filter (\<lambda>r. k \<le> int (shared_tag_count r qs)) tbl"
    using assms by (auto simp: overlaps_iff intro!: filter_cong)
  then show ?thesis
    by (simp add: query_database_by_tags_def filter_rows_tagged [OF tagged] del: filter_filter)
qed

theorem tag_query_exact_witness:
  "(1::int) \<le> 2
   \<and> query_database_by_tags False [example_row 1, partial_row, untagged_row] [''tariff'', ''trump''] 2
       = [dict_of_row (example_row 1)]"
proof -
  have "map dict_of_row (filter (\<lambda>r. 2 \<le> int (shared_tag_count r [''tariff'', ''trump'']))
          [example_row 1, partial_row, untagged_row]) = [dict_of_row (example_row 1)]"
    by code_simp
  then show ?thesis
    using tag_query_exact [of 2 False "[example_row 1, partial_row, untagged_row]"
        "[''tariff'', ''trump'']"]
    by simp
qed

theorem tag_query_zero_counterexample:
  "partial_row \<in> set [partial_row]
   \<and> (0::int) \<le> int (shared_tag_count partial_row [''china''])
   \<and> query_database_by_tags False [partial_row] [''china''] 0 = []"
  by (simp add: query_database_by_tags_def overlaps_def partial_row_def new_row_def)

text \<open>
  Claim C3. In the supplementing branch the merged set is the cached articles followed
  by the surviving candidates, in the Fetcher's order and with nothing else removed or
  moved. A candidate survives exactly when it has a url that begins with \<open>http\<close> and
  that is the url of no cached article; a survivor whose query is missing or empty gets
  the current query string, and one whose tags are missing or empty gets the current tag
  list.
\<close>

theorem supplementing_merge:
  assumes "length (articles_from_db e q w) < MIN_ARTICLE_THRESHOLD"
  shows "fst (gather_articles e q w) =
     Inr (articles_from_db e q w @
          map (\<lambda>a. a\<lparr>query := (if truthy (query a) then query a else Some q),
                     tags := (if truthy (tags a) then tags a
                              else Some (extract_tags (extract_keywords e) q 5))\<rparr>)
            (filter (\<lambda>a. \<exists>u. url a = Some u \<and> prefix ''http'' u
                           \<and> Some u \<notin> url ` set (articles_from_db e q w))
               (fetched_candidates e q)))"
proof -
  have keep: "keep_candidate (List.map_filter url (articles_from_db e q w)) =
      (\<lambda>a. \<exists>u. url a = Some u \<and> prefix ''http'' u
                           \<and> Some u \<notin> url ` set (articles_from_db e q w))"
    by (rule ext) (rule keep_candidate_iff)
  show ?thesis
    unfolding gather_supplementing [OF assms] Let_def
    by (simp add: ensure_query_and_tags_map keep ensure_fields_eq)
qed

theorem supplementing_merge_witness:
  "length (articles_from_db (example_env (Some mixed_fetch) None) ''tariff'' sparse_world)
     < MIN_ARTICLE_THRESHOLD
   \<and> fst (gather_articles (example_env (Some mixed_fetch) None) ''tariff'' sparse_world)
     = Inr [cached_article ''https://example.com/article1'',
            cached_article ''https://example.com/article2'',
            (example_candidate ''https://example.org/new'')
              \<lparr>query := Some ''tariff'', tags := Some [''tariff'', ''trump'', ''china'', ''rules'']\<rparr>]"
proof -
  let ?e = "example_env (Some mixed_fetch) None"
  have fetched: "fetched_candidates ?e ''tariff'' = mixed_fetch"
    by (simp add: fetched_candidates_def example_env_def)
  have tgs: "extract_tags (extract_keywords ?e) ''tariff'' 5 = [''tariff'', ''trump'', ''china'', ''rules'']"
    by (simp add: example_env_def tags_example)
  have survivors:
    "filter (\<lambda>a. \<exists>u. url a = Some u \<and> prefix ''http'' u
                   \<and> Some u \<notin> url ` set (articles_from_db ?e ''tariff'' sparse_world))
       (fetched_candidates ?e ''tariff'')
     = [example_candidate ''https://example.org/new'']"
    unfolding fetched sparse_cached
    by (simp add: mixed_fetch_def example_candidate_def cached_article_def)
  have "fst (gather_articles ?e ''tariff'' sparse_world) =
     Inr (articles_from_db ?e ''tariff'' sparse_world @
          map (\<lambda>a. a\<lparr>query := (if truthy (query a) then query a else Some ''tariff''),
                     tags := (if truthy (tags a) then tags a
                              else Some (extract_tags (extract_keywords ?e) ''tariff'' 5))\<rparr>)
            [example_candidate ''https://example.org/new''])"
    using supplementing_merge [OF sparse_few, of "Some mixed_fetch" None]
    by (simp only: survivors)
  then have "fst (gather_articles ?e ''tariff'' sparse_world)
     = Inr [cached_article ''https://example.com/article1'',
            cached_article ''https://example.com/article2'',
            (example_candidate ''https://example.org/new'')
              \<lparr>query := Some ''tariff'', tags := Some [''tariff'', ''trump'', ''china'', ''rules'']\<rparr>]"
    by (simp add: sparse_cached tgs example_candidate_def truthy_def)
  with sparse_few [of "Some mixed_fetch" None] show ?thesis
    by (rule conjI)
qed

text \<open>
  Claim C4. The claim is that, for every query and every behaviour of the store, the
  Fetcher and the Narrative Generator, the orchestrator returns a string and never
  raises. The code does not keep it: when the store drops the connection during the
  INSERT of \<open>append_articles\<close>, the statement raises, the handler's \<open>rollback\<close> raises
  \<open>InterfaceError\<close> in turn, and the exception leaves \<open>append_articles\<close> and
  \<open>generate_report_for_query\<close>. The run below has two cached articles, one fresh
  candidate and such a store. By \<open>full_raises_only_from_rollback\<close> this is the only
  exception that leaves the orchestrator, by \<open>full_returns_string_when_rollback_completes\<close>
  every other run returns a string, and by \<open>narration_failure_sentinel\<close> a Narrative
  Generator that fails on the prompt it is sent gives the fixed sentinel.
\<close>

theorem lost_connection_raises:
  "fst (generate_report_for_query_full failing_write_env True ''tariff'' [] sparse_world)
     = Inl InterfaceError"
  by code_simp

text \<open>
  Claim C5. After an article with url \<open>u\<close> went through \<open>append_articles\<close>, a
  second \<open>append_articles\<close> of an article with the same url, at any clock reading and
  whether or not the second write fails, leaves the whole table, and so the stored row of
  \<open>u\<close>, exactly as the first call left it.
\<close>

theorem insert_or_skip_idempotent:
  assumes "url a = Some u" and "url b = Some u"
  shows "append_articles fault2 now2 [b] (append_articles False now1 [a] tbl)
           = append_articles False now1 [a] tbl
       \<and> lookup_row u (append_articles False now1 [a] tbl) \<noteq> None"
proof -
  let ?t1 = "append_articles False now1 [a] tbl"
  have present: "u \<in> set (map row_url ?t1)"
    using assms(1) by (simp add: append_articles_single new_row_def)
  show ?thesis
    using append_articles_known_url [OF assms(2) present] lookup_row_present [OF present]
    by simp
qed

theorem insert_or_skip_idempotent_witness:
  "url (example_candidate ''https://example.org/new'') = Some ''https://example.org/new''
   \<and> append_articles False 9 [example_candidate ''https://example.org/new'']
         (append_articles False 1 [example_candidate ''https://example.org/new''] [])
       = append_articles False 1 [example_candidate ''https://example.org/new''] []
   \<and> lookup_row ''https://example.org/new''
         (append_articles False 1 [example_candidate ''https://example.org/new''] []) \<noteq> None"
proof -
  have u: "url (example_candidate ''https://example.org/new'') = Some ''https://example.org/new''"
    by (simp add: example_candidate_def)
  show ?thesis
    using u insert_or_skip_idempotent [OF u u, of False 9 1 "[]"] by simp
qed

text \<open>
  Claim C6, amended. Let the table hold a row for url \<open>u\<close> and let \<open>store_articles\<close>
  run on a batch of articles with distinct urls that contains an article \<open>a\<close> with url
  \<open>u\<close>. Afterwards the row of \<open>u\<close> carries the summary, query and tags of \<open>a\<close>, and
  its timestamp is the clock reading of the write. That reading is later than the
  original timestamp only when the clock of the store has moved past it, which the write
  path does not check: a write at reading 5 over a row stamped 10 leaves the row stamped 5.
\<close>

theorem upsert_replaces_row:
  assumes "a \<in> set articles" and "url a = Some u"
    and "distinct (map url articles)" and "None \<notin> set (map url articles)"
    and "lookup_row u tbl = Some old"
  shows "\<exists>r. lookup_row u (store_articles False now articles tbl) = Some r
           \<and> row_url r = u \<and> row_summary r = summary a \<and> row_query r = query a
           \<and> row_tags r = tags a \<and> row_timestamp r = now"
proof -
  let ?vs = "map data_tuple_of articles"
  have fst_vs: "map fst ?vs = map url articles"
    by (simp add: data_tuple_of_def)
  have "None \<notin> set (map fst (concat (paginate ?vs)))" "distinct (map fst (concat (paginate ?vs)))"
    unfolding concat_paginate fst_vs using assms(3,4) by simp_all
  then obtain tbl' where run: "run_pages (insert_do_update now) (paginate ?vs) tbl = Some tbl'"
    using run_pages_update_succeeds by blast
  then have stored: "store_articles False now articles tbl = tbl'"
    by (simp add: store_articles_def execute_values_def)
  have "(Some u, summary a, query a, tags a) \<in> set (concat (paginate ?vs))"
    unfolding concat_paginate using assms(1,2) by (force simp: data_tuple_of_def)
  moreover have "distinct (map fst (concat (paginate ?vs)))"
    unfolding concat_paginate fst_vs using assms(3) .
  ultimately have "lookup_row u tbl' = Some (new_row now u (summary a) (query a) (tags a))"
    by (rule run_pages_update_lookup [OF run])
  then show ?thesis
    using stored by (simp add: new_row_def)
qed

theorem upsert_replaces_row_witness:
  "lookup_row ''https://example.com/article1'' [example_row 1, example_row 2] = Some (example_row 1)
   \<and> lookup_row ''https://example.com/article1''
        (store_articles False 5 [revised_article] [example_row 1, example_row 2])
      = Some (new_row 5 ''https://example.com/article1'' (Some ''Revised summary.'')
                (Some ''tariffs'') (Some [''tariff'', ''steel'']))"
proof -
  have old: "lookup_row ''https://example.com/article1'' [example_row 1, example_row 2] = Some (example_row 1)"
    by code_simp
  have a: "revised_article \<in> set [revised_article]" "url revised_article = Some ''https://example.com/article1''"
    "distinct (map url [revised_article])" "None \<notin> set (map url [revised_article])"
    by (simp_all add: revised_article_def)
  from upsert_replaces_row [OF a old, of 5]
  obtain r where r: "lookup_row ''https://example.com/article1''
        (store_articles False 5 [revised_article] [example_row 1, example_row 2]) = Some r"
    "row_url r = ''https://example.com/article1''" "row_summary r = summary revised_article"
    "row_query r = query revised_article" "row_tags r = tags revised_article" "row_timestamp r = 5"
    by blast
  then have "r = new_row 5 ''https://example.com/article1'' (Some ''Revised summary.'')
                (Some ''tariffs'') (Some [''tariff'', ''steel''])"
    by (simp add: new_row_def revised_article_def)
  with r(1) old show ?thesis by simp
qed

theorem upsert_timestamp_counterexample:
  "lookup_row ''https://example.com/article1'' [late_row] = Some late_row
   \<and> row_timestamp late_row = 10
   \<and> lookup_row ''https://example.com/article1'' (store_articles False 5 [revised_article] [late_row])
      = Some (new_row 5 ''https://example.com/article1'' (Some ''Revised summary.'')
                (Some ''tariffs'') (Some [''tariff'', ''steel'']))
   \<and> \<not> row_timestamp late_row
        < row_timestamp (new_row 5 ''https://example.com/article1'' (Some ''Revised summary.'')
                (Some ''tariffs'') (Some [''tariff'', ''steel'']))"
  by code_simp

text \<open>
  Claim C7. The collated text is the concatenation, in merged-set order, of one block
  per article, where the articles are numbered from one by their position in the merged
  set: an article with a non-empty summary gives its position, its url and its summary,
  an article with an empty or missing summary gives nothing and keeps its number, so the
  visible numbers can have gaps.
\<close>

theorem collation_numbering:
  "collate_article_summaries articles =
     concat (map (\<lambda>(n, a). if summary_or_empty a = [] then []
                            else ''Article '' @ str_nat n @ '' (URL: '' @ url_or_unknown a @ ''):''
                                   @ [newline] @ summary_or_empty a @ [newline, newline])
               (enumerate 1 articles))"
proof -
  have "map (\<lambda>(n, a). if summary_or_empty a = [] then []
                        else article_block (n - 1) (url_or_unknown a) (summary_or_empty a))
            (enumerate (Suc 0) articles)
      = map (\<lambda>(n, a). if summary_or_empty a = [] then []
                            else ''Article '' @ str_nat n @ '' (URL: '' @ url_or_unknown a @ ''):''
                                   @ [newline] @ summary_or_empty a @ [newline, newline])
            (enumerate (Suc 0) articles)"
    by (rule map_cong [OF refl]) (auto simp only: article_block_pos dest!: enumerate_pos split: prod.splits)
  then show ?thesis
    by (simp only: collate_article_summaries_def collate_loop_eq append_Nil One_nat_def)
qed

theorem collation_numbering_witness:
  "collate_article_summaries
     [example_candidate ''https://example.org/a'',
      (example_candidate ''https://example.org/b'')\<lparr>summary := Some []\<rparr>,
      (example_candidate ''https://example.org/c'')\<lparr>url := None\<rparr>]
   = ''Article 1 (URL: https://example.org/a):'' @ [newline] @ ''Fresh summary.'' @ [newline, newline]
     @ ''Article 3 (URL: Unknown URL):'' @ [newline] @ ''Fresh summary.'' @ [newline, newline]"
  unfolding collation_numbering by code_simp

text \<open>
  Claim C8. When the merged set is empty, \<open>generate_report_for_query\<close> returns the
  fixed text \<open>No relevant articles found to generate a report.\<close> and the run makes no
  call to the Narrative Generator.
\<close>

theorem empty_merge_skips_narration:
  assumes "fst (gather_articles e q w) = Inr []"
  shows "fst (generate_report_for_query e q x w) = Inr ''No relevant articles found to generate a report.''
       \<and> narrator_calls (snd (generate_report_for_query e q x w)) = narrator_calls w"
proof -
  obtain w' where g: "gather_articles e q w = (Inr [], w')"
    using assms by (cases "gather_articles e q w") simp
  have "narrator_calls w' = narrator_calls w"
    using narrator_calls_gather [of e q w] g by simp
  then show ?thesis
    by (simp add: report_after_gather [OF g])
qed

theorem empty_merge_skips_narration_witness:
  "fst (gather_articles (example_env (Some []) (Some ''Report.'')) ''tariff'' empty_world) = Inr []
   \<and> fst (generate_report_for_query (example_env (Some []) (Some ''Report.'')) ''tariff'' [] empty_world)
       = Inr ''No relevant articles found to generate a report.''
   \<and> narrator_calls (snd (generate_report_for_query (example_env (Some []) (Some ''Report.''))
        ''tariff'' [] empty_world)) = 0"
proof -
  have empty: "fst (gather_articles (example_env (Some []) (Some ''Report.'')) ''tariff'' empty_world) = Inr []"
    by code_simp
  have "narrator_calls empty_world = 0"
    by (simp add: narrator_calls_def empty_world_def)
  then show ?thesis
    using empty empty_merge_skips_narration [OF empty, of "[]"] by simp
qed

text \<open>
  Claim C9, amended. When the tag list extracted from the query is not empty, every
  article that the supplementing branch hands to \<open>append_articles\<close> has a non-empty tag
  list, and so has every row that the run adds to the table. The condition is needed:
  the default is the tag list of the query, and for a query without a keyword above the
  threshold that list is empty and is stored as it is.
\<close>

theorem supplemented_tags_nonempty:
  assumes "extract_tags (extract_keywords e) q 5 \<noteq> []"
  shows "(\<forall>arts. AppendCall arts \<in> set (drop (length (calls w)) (calls (snd (gather_articles e q w))))
            \<longrightarrow> (\<forall>a \<in> set arts. truthy (tags a)))
       \<and> (\<forall>r \<in> set (table (snd (gather_articles e q w))) - set (table w). truthy (row_tags r))"
proof (cases "length (articles_from_db e q w) < MIN_ARTICLE_THRESHOLD")
  case False
  then show ?thesis using gather_sufficient [of e q w] by simp
next
  case True
  let ?tgs = "extract_tags (extract_keywords e) q 5"
  let ?supp = "ensure_query_and_tags q ?tgs
      (filter (keep_candidate (List.map_filter url (articles_from_db e q w))) (fetched_candidates e q))"
  have supp: "\<forall>a \<in> set ?supp. truthy (tags a)"
    using ensure_query_and_tags_truthy [OF assms] by blast
  have rows: "truthy (row_tags r)"
    if "r \<in> set (append_articles (db_write_fault e) (clock e) ?supp (table w))" "r \<notin> set (table w)" for r
  proof -
    from append_articles_rows [OF that(1)] that(2)
    obtain a u where "a \<in> set ?supp" "r = new_row (clock e) u (summary a) (query a) (tags a)"
      by blast
    with supp show ?thesis by (simp add: new_row_def)
  qed
  show ?thesis
    unfolding gather_supplementing [OF True] Let_def
    using supp rows by (auto split: if_splits)
qed

theorem supplemented_tags_nonempty_witness:
  "extract_tags (extract_keywords (example_env (Some [twin]) None)) ''tariff'' 5 \<noteq> []
   \<and> AppendCall [tagged_twin]
      \<in> set (drop (length (calls empty_world))
                (calls (snd (gather_articles (example_env (Some [twin]) None) ''tariff'' empty_world))))
   \<and> truthy (tags tagged_twin)
   \<and> new_row 1 ''https://example.org/new'' (Some ''Fresh summary.'') (Some ''tariff'')
        (Some [''tariff'', ''trump'', ''china'', ''rules''])
      \<in> set (table (snd (gather_articles (example_env (Some [twin]) None) ''tariff'' empty_world)))
          - set (table empty_world)
   \<and> truthy (row_tags (new_row 1 ''https://example.org/new'' (Some ''Fresh summary.'') (Some ''tariff'')
        (Some [''tariff'', ''trump'', ''china'', ''rules''])))"
proof -
  let ?e = "example_env (Some [twin]) None"
  let ?r = "new_row 1 ''https://example.org/new'' (Some ''Fresh summary.'') (Some ''tariff'')
        (Some [''tariff'', ''trump'', ''china'', ''rules''])"
  have tgs: "extract_tags (extract_keywords ?e) ''tariff'' 5 \<noteq> []"
    by (simp add: example_env_def tags_example)
  have "table (snd (gather_articles ?e ''tariff'' empty_world)) = [?r]"
    by code_simp
  moreover have "table empty_world = []"
    by (simp add: empty_world_def)
  ultimately have new: "?r \<in> set (table (snd (gather_articles ?e ''tariff'' empty_world))) - set (table empty_world)"
    by simp
  have "calls (snd (gather_articles ?e ''tariff'' empty_world))
      = [FetcherCall ''tariff'' 5, AppendCall [tagged_twin]]"
    by code_simp
  moreover have "calls empty_world = []"
    by (simp add: empty_world_def)
  ultimately have handed: "AppendCall [tagged_twin]
      \<in> set (drop (length (calls empty_world)) (calls (snd (gather_articles ?e ''tariff'' empty_world))))"
    by simp
  note claim = supplemented_tags_nonempty [OF tgs, of empty_world]
  from claim new have "truthy (row_tags ?r)"
    by blast
  moreover from claim handed have "truthy (tags tagged_twin)"
    by auto
  ultimately show ?thesis
    using tgs new handed by simp
qed

theorem supplemented_tags_empty_counterexample:
  "table (snd (gather_articles stopword_env ''that thing'' empty_world))
     = [new_row 1 ''https://example.org/new'' (Some ''Fresh summary.'') (Some ''that thing'') (Some [])]
   \<and> calls (snd (gather_articles stopword_env ''that thing'' empty_world))
     = [FetcherCall ''that thing'' 5, AppendCall [twin\<lparr>query := Some ''that thing'', tags := Some []\<rparr>]]"
  by code_simp

text \<open>
  Claim C10. Candidates are compared with the cached articles only, never with each
  other: when the Fetcher returns the same candidate twice, with a url that begins with
  \<open>http\<close> and belongs to no cached article, the merged set ends with both copies and
  one \<open>append_articles\<close> call receives both.
\<close>

theorem duplicates_within_batch_survive:
  assumes "length (articles_from_db e q w) < MIN_ARTICLE_THRESHOLD"
    and "get_data_and_summarize e q 5 = Some [c, c]"
    and "url c = Some u" and "prefix ''http'' u"
    and "Some u \<notin> url ` set (articles_from_db e q w)"
  shows "fst (gather_articles e q w) =
           Inr (articles_from_db e q w @
                [ensure_tags (extract_tags (extract_keywords e) q 5) (ensure_query q c),
                 ensure_tags (extract_tags (extract_keywords e) q 5) (ensure_query q c)])
       \<and> calls (snd (gather_articles e q w)) =
           calls w @ [FetcherCall q 5,
                      AppendCall [ensure_tags (extract_tags (extract_keywords e) q 5) (ensure_query q c),
                                  ensure_tags (extract_tags (extract_keywords e) q 5) (ensure_query q c)]]"
proof -
  have kept: "keep_candidate (List.map_filter url (articles_from_db e q w)) c"
    using assms(3-5) by (simp add: keep_candidate_iff)
  have fetched: "fetched_candidates e q = [c, c]"
    using assms(2) by (simp add: fetched_candidates_def)
  show ?thesis
    unfolding gather_supplementing [OF assms(1)] Let_def
    by (simp add: fetched kept)
qed

theorem duplicates_within_batch_survive_witness:
  "fst (gather_articles (example_env (Some [twin, twin]) None) ''tariff'' sparse_world)
     = Inr [cached_article ''https://example.com/article1'',
            cached_article ''https://example.com/article2'', tagged_twin, tagged_twin]
   \<and> calls (snd (gather_articles (example_env (Some [twin, twin]) None) ''tariff'' sparse_world))
     = [FetcherCall ''tariff'' 5, AppendCall [tagged_twin, tagged_twin]]"
proof -
  let ?e = "example_env (Some [twin, twin]) None"
  have fetched: "get_data_and_summarize ?e ''tariff'' 5 = Some [twin, twin]"
    by (simp add: example_env_def)
  have u: "url twin = Some ''https://example.org/new''"
    by (simp add: twin_def example_candidate_def)
  have scheme: "prefix ''http'' ''https://example.org/new''"
    by simp
  have fresh: "Some ''https://example.org/new'' \<notin> url ` set (articles_from_db ?e ''tariff'' sparse_world)"
    unfolding sparse_cached by (simp add: cached_article_def)
  have t: "ensure_tags (extract_tags (extract_keywords ?e) ''tariff'' 5) (ensure_query ''tariff'' twin) = tagged_twin"
    by code_simp
  have c: "calls sparse_world = []"
    by (simp add: sparse_world_def)
  show ?thesis
    using duplicates_within_batch_survive [OF sparse_few fetched u scheme fresh]
    by (simp add: t c sparse_cached)
qed

end
